theory Spec2Isabelle
  imports Main "HOL-Library.AList"
begin

section \<open>Pyrlang processes: the data model of \<open>Pyrlang/process.py\<close>\<close>

text \<open>
  A \<open>Process\<close> is a greenlet with a mailbox, a pid issued by its node and a flag
  \<open>is_exiting\<close>. Python objects are kept in an explicit store: a process is named by
  its reference (its position in the list of all process objects), and the node's process
  dictionary maps pids to such references.

  A record field cannot end in an underscore, so the fields carry the source's names
  without it: \<open>inbox\<close> is \<open>inbox_\<close>, \<open>is_exiting\<close> is \<open>is_exiting_\<close>, and so on;
  \<open>pid_of\<close> is \<open>pid_\<close>.
\<close>

type_synonym pid = nat
type_synonym ref = nat

text \<open>A Python value: the singleton \<open>None\<close>, or any other object.\<close>

datatype 'a pyobj = PyNone | PyVal 'a

datatype error = KeyError string

text \<open>
  Where the greenlet of a process stands in \<open>_run\<close>:
  \<^item> \<open>Scheduled\<close>: \<open>start()\<close> was called, \<open>_run\<close> has not begun;
  \<^item> \<open>AtWhile\<close>: about to test \<open>while not self.is_exiting_\<close>;
  \<^item> \<open>AtGet\<close>: inside \<open>handle_inbox\<close>, about to call \<open>self.inbox_.get()\<close>;
  \<^item> \<open>AtSleep\<close>: \<open>handle_inbox\<close> has returned, about to call \<open>gevent.sleep(0)\<close>;
  \<^item> \<open>Finished\<close>: \<open>_run\<close> has returned.
\<close>

datatype run_state = Scheduled | AtWhile | AtGet | AtSleep | Finished

record 'a process =
  node_name :: string
  inbox :: "'a pyobj list"
  pid_of :: pid
  is_exiting :: bool
  monitors :: "pid set"
  monitor_targets :: "pid set"
  greenlet :: run_state

text \<open>
  What a process lets the outside observe while it runs: the two \<open>print\<close> calls and the
  yield \<open>gevent.sleep(0)\<close>. The default \<open>handle_one_inbox_message\<close> does nothing but
  print, so \<open>PrintHandling pid msg\<close> is the record of one invocation of the handler on
  \<open>msg\<close>.
\<close>

datatype 'a event =
    PrintHandleInbox ref "'a pyobj"
  | PrintHandling pid "'a pyobj"
  | Sleep0 ref

subsection \<open>The mailbox\<close>

text \<open>
  \<open>Pyrlang/mailbox.py\<close> is not among the sources. The spec's mailbox is an ordered
  FIFO sequence of opaque values, written by many and read by its owner only. It is
  embedded by value in the process record.
\<close>

text \<open>
  Modelled from the spec: the constructor \<open>mailbox.Mailbox()\<close> is missing; a new
  mailbox is the empty sequence.
\<close>

definition Mailbox :: "'a pyobj list" where
  "Mailbox = []"

text \<open>
  Modelled from the spec: \<open>Mailbox.put\<close> is missing; \<open>push(msg)\<close> completes without
  blocking and adds the message behind every message pushed before.
\<close>

definition mailbox_put :: "'a pyobj \<Rightarrow> 'a pyobj list \<Rightarrow> 'a pyobj list" where
  "mailbox_put m q = q @ [m]"

text \<open>
  Modelled from the spec: \<open>Mailbox.get\<close> is missing; \<open>pop()\<close> blocks the calling
  actor until a message is available and then returns the oldest one. The source agrees
  at the call site (\<open># Block, but then gevent will allow other green-threads to run\<close>).
  The result is \<open>None\<close> where the caller blocks.
\<close>

fun mailbox_get :: "'a pyobj list \<Rightarrow> ('a pyobj \<times> 'a pyobj list) option" where
  "mailbox_get [] = None"
| "mailbox_get (m # q) = Some (m, q)"

subsection \<open>The node\<close>

text \<open>
  Modelled from the spec: the class \<open>Node\<close> of \<open>Pyrlang/node.py\<close> is missing; the
  spec's registry is a mapping from pids to live actors, one entry for each.
\<close>

record node =
  processes :: "(pid \<times> ref) list"

text \<open>
  Modelled from the spec: the pid generator of the node is missing; a pid is issued
  distinct from every currently registered pid.
\<close>

definition fresh_pid :: "(pid \<times> ref) list \<Rightarrow> pid" where
  "fresh_pid reg = Suc (foldr max (map fst reg) 0)"

text \<open>
  Modelled from the spec: \<open>Node.register_new_process\<close> is missing;
  \<open>registerNewProcess(actor)\<close> issues a fresh pid, installs the mapping from it to
  the actor and returns it.
\<close>

definition register_new_process :: "ref \<Rightarrow> node \<Rightarrow> pid \<times> node" where
  "register_new_process proc n =
     (let pid1 = fresh_pid (processes n)
      in (pid1, n\<lparr>processes := AList.update pid1 proc (processes n)\<rparr>))"

text \<open>
  Modelled from the spec: \<open>Node.on_exit_process\<close> is missing;
  \<open>onExitProcess(pid, reason)\<close> removes the mapping for \<open>pid\<close> if present, and
  removing an absent pid is a no-op, not an error.
\<close>

definition on_exit_process :: "pid \<Rightarrow> 'a pyobj \<Rightarrow> node \<Rightarrow> node" where
  "on_exit_process pid reason n = n\<lparr>processes := AList.delete pid (processes n)\<rparr>"

text \<open>
  Modelled from the spec: the lookup of the registry is missing; a lookup by pid gives
  the actor registered under it, or nothing.
\<close>

definition where_is :: "node \<Rightarrow> pid \<Rightarrow> ref option" where
  "where_is n pid = map_of (processes n) pid"

subsection \<open>The world\<close>

text \<open>
  \<open>all_nodes\<close> is \<open>Node.all_nodes\<close>, \<open>objs\<close> the store of process objects and
  \<open>events\<close> everything printed or yielded so far.
\<close>

record 'a world =
  all_nodes :: "string \<Rightarrow> node option"
  objs :: "'a process list"
  events :: "'a event list"

section \<open>The operations of \<open>Process\<close>\<close>

subsection \<open>\<open>__init__\<close>\<close>

text \<open>
  The node argument is given by its name in \<open>Node.all_nodes\<close>; with no such node there
  is no registry to construct the process with, and the construction fails. Otherwise
  the new object gets the next free reference, the fields are set in the source's order
  and the greenlet is scheduled.
\<close>

definition init :: "string \<Rightarrow> 'a world \<Rightarrow> error + (ref \<times> 'a world)" where
  "init nn w =
     (case all_nodes w nn of
        None \<Rightarrow> Inl (KeyError nn)
      | Some n \<Rightarrow>
          let self = length (objs w);
              (pid1, n') = register_new_process self n;
              p = \<lparr>node_name = nn, inbox = Mailbox, pid_of = pid1, is_exiting = False,
                   monitors = {}, monitor_targets = {}, greenlet = Scheduled\<rparr>
          in Inr (self, w\<lparr>all_nodes := (all_nodes w)(nn \<mapsto> n'), objs := objs w @ [p]\<rparr>))"

subsection \<open>\<open>handle_one_inbox_message\<close>, \<open>handle_inbox\<close> and \<open>_run\<close>\<close>

text \<open>The default handler prints the pid and the message.\<close>

definition handle_one_inbox_message :: "'a process \<Rightarrow> 'a pyobj \<Rightarrow> 'a event list" where
  "handle_one_inbox_message p msg = [PrintHandling (pid_of p) msg]"

text \<open>
  One iteration of the \<open>while True\<close> loop of \<open>handle_inbox\<close>: block where the mailbox is
  empty (\<open>None\<close>); otherwise take the first message, print it, and either \<open>break\<close> (the
  flag of the result is \<open>True\<close>) when it \<open>is None\<close>, or hand it to the handler.
\<close>

definition handle_inbox_iter ::
  "ref \<Rightarrow> 'a process \<Rightarrow> (bool \<times> 'a process \<times> 'a event list) option" where
  "handle_inbox_iter self p =
     (case mailbox_get (inbox p) of
        None \<Rightarrow> None
      | Some (msg, q) \<Rightarrow>
          let p1 = p\<lparr>inbox := q\<rparr>;
              out = [PrintHandleInbox self msg]
          in if msg = PyNone then Some (True, p1, out)
             else Some (False, p1, out @ handle_one_inbox_message p1 msg))"

text \<open>
  One transition of the greenlet. \<open>None\<close> means that it cannot move: it is blocked in
  \<open>get\<close> on an empty mailbox, or \<open>_run\<close> has returned.
\<close>

definition step :: "ref \<Rightarrow> 'a process \<Rightarrow> ('a process \<times> 'a event list) option" where
  "step self p =
     (case greenlet p of
        Scheduled \<Rightarrow> Some (p\<lparr>greenlet := AtWhile\<rparr>, [])
      | AtWhile \<Rightarrow>
          if is_exiting p then Some (p\<lparr>greenlet := Finished\<rparr>, [])
          else Some (p\<lparr>greenlet := AtGet\<rparr>, [])
      | AtGet \<Rightarrow>
          (case handle_inbox_iter self p of
             None \<Rightarrow> None
           | Some (brk, p1, out) \<Rightarrow>
               Some (if brk then p1\<lparr>greenlet := AtSleep\<rparr> else p1, out))
      | AtSleep \<Rightarrow> Some (p\<lparr>greenlet := AtWhile\<rparr>, [Sleep0 self])
      | Finished \<Rightarrow> None)"

text \<open>
  A whole drain pass: \<open>handle_inbox\<close> from its entry until it returns (\<open>True\<close>: the
  sentinel was dequeued) or blocks in \<open>get\<close> (\<open>False\<close>: the mailbox ran empty and the
  call has not returned).
\<close>

function handle_inbox :: "ref \<Rightarrow> 'a process \<Rightarrow> bool \<times> 'a process \<times> 'a event list" where
  "handle_inbox self p =
     (case handle_inbox_iter self p of
        None \<Rightarrow> (False, p, [])
      | Some (brk, p1, out) \<Rightarrow>
          if brk then (True, p1, out)
          else (case handle_inbox self p1 of (b, p2, out2) \<Rightarrow> (b, p2, out @ out2)))"
  by pat_completeness auto
termination
  by (relation "measure (\<lambda>(self, p). length (inbox p))")
     (auto simp: handle_inbox_iter_def Let_def split: option.splits list.splits if_splits
           elim!: mailbox_get.elims)

text \<open>
  The greenlet left alone: it moves until it cannot, that is until \<open>_run\<close> returns or
  \<open>get\<close> blocks. The result is the last state and everything printed and yielded.
\<close>

definition rank :: "run_state \<Rightarrow> nat" where
  "rank s = (case s of Finished \<Rightarrow> 0 | AtGet \<Rightarrow> 1 | AtWhile \<Rightarrow> 2 | AtSleep \<Rightarrow> 3 | Scheduled \<Rightarrow> 3)"

function run :: "ref \<Rightarrow> 'a process \<Rightarrow> 'a process \<times> 'a event list" where
  "run self p =
     (case step self p of
        None \<Rightarrow> (p, [])
      | Some (p1, out) \<Rightarrow> (case run self p1 of (p2, out2) \<Rightarrow> (p2, out @ out2)))"
  by pat_completeness auto
termination
  by (relation "measure (\<lambda>(self, p). 3 * length (inbox p) + rank (greenlet p))")
     (auto simp: step_def handle_inbox_iter_def rank_def Let_def
           split: run_state.splits option.splits if_splits elim!: mailbox_get.elims)

subsection \<open>\<open>exit\<close>\<close>

text \<open>
  \<open>exit\<close> reads \<open>self.node_name_\<close> and \<open>self.pid_\<close>, looks the node up in
  \<open>Node.all_nodes\<close> (a \<open>KeyError\<close> where the name is unknown) and calls
  \<open>on_exit_process\<close> on it. It assigns to no field of \<open>self\<close>. Its first argument
  is the process object as it stands in the store.
\<close>

definition exit :: "'a process \<Rightarrow> 'a pyobj \<Rightarrow> 'a world \<Rightarrow> error + 'a world" where
  "exit self reason w =
     (case all_nodes w (node_name self) of
        None \<Rightarrow> Inl (KeyError (node_name self))
      | Some n \<Rightarrow>
          Inr (w\<lparr>all_nodes :=
                   (all_nodes w)(node_name self \<mapsto> on_exit_process (pid_of self) reason n)\<rparr>))"

subsection \<open>Operations on the world\<close>

text \<open>
  What can happen to a world of processes: a process is constructed, the greenlet of a
  process makes one transition (which includes the dispatch of a message), a message is
  put into a mailbox, \<open>exit\<close> is called. An operation that raises leaves the world as it
  was; an operation on a reference that names no object does nothing.
\<close>

datatype 'a op =
    Construct string
  | Step ref
  | Put ref "'a pyobj"
  | Exit ref "'a pyobj"

definition step_world :: "ref \<Rightarrow> 'a world \<Rightarrow> 'a world" where
  "step_world self w =
     (if self < length (objs w) then
        (case step self (objs w ! self) of
           None \<Rightarrow> w
         | Some (p1, out) \<Rightarrow> w\<lparr>objs := (objs w)[self := p1], events := events w @ out\<rparr>)
      else w)"

definition put_world :: "ref \<Rightarrow> 'a pyobj \<Rightarrow> 'a world \<Rightarrow> 'a world" where
  "put_world self m w =
     (if self < length (objs w) then
        w\<lparr>objs := (objs w)[self := (objs w ! self)\<lparr>inbox := mailbox_put m (inbox (objs w ! self))\<rparr>]\<rparr>
      else w)"

fun apply_op :: "'a op \<Rightarrow> 'a world \<Rightarrow> 'a world" where
  "apply_op (Construct nn) w = (case init nn w of Inl e \<Rightarrow> w | Inr (self, w1) \<Rightarrow> w1)"
| "apply_op (Step self) w = step_world self w"
| "apply_op (Put self m) w = put_world self m w"
| "apply_op (Exit self reason) w =
     (if self < length (objs w) then
        (case exit (objs w ! self) reason w of Inl e \<Rightarrow> w | Inr w1 \<Rightarrow> w1)
      else w)"

fun apply_ops :: "'a op list \<Rightarrow> 'a world \<Rightarrow> 'a world" where
  "apply_ops [] w = w"
| "apply_ops (x # xs) w = apply_ops xs (apply_op x w)"

text \<open>The messages the handler was invoked on, in order.\<close>

fun handled :: "'a event list \<Rightarrow> 'a pyobj list" where
  "handled [] = []"
| "handled (PrintHandling pid1 m # es) = m # handled es"
| "handled (PrintHandleInbox self m # es) = handled es"
| "handled (Sleep0 self # es) = handled es"

text \<open>What the handler prints for a list of messages dispatched in one drain pass.\<close>

definition dispatched :: "ref \<Rightarrow> pid \<Rightarrow> 'a pyobj list \<Rightarrow> 'a event list" where
  "dispatched self pid1 ms =
     concat (map (\<lambda>m. [PrintHandleInbox self m, PrintHandling pid1 m]) ms)"

text \<open>Concrete worlds and processes for the examples.\<close>

definition world0 :: "nat world" where
  "world0 = \<lparr>all_nodes = [''py@host'' \<mapsto> \<lparr>processes = []\<rparr>], objs = [], events = []\<rparr>"

definition proc0 :: "nat process" where
  "proc0 = \<lparr>node_name = ''py@host'', inbox = [], pid_of = 1, is_exiting = False,
            monitors = {}, monitor_targets = {}, greenlet = AtGet\<rparr>"

text \<open>\<open>world1\<close> is \<open>world0\<close> after one process was constructed on its node.\<close>

definition world1 :: "nat world" where
  "world1 = \<lparr>all_nodes = [''py@host'' \<mapsto> \<lparr>processes = [(1, 0)]\<rparr>],
             objs = [proc0\<lparr>greenlet := Scheduled\<rparr>], events = []\<rparr>"

text \<open>\<open>world2\<close> is \<open>world1\<close> after that process called \<open>exit\<close>.\<close>

definition world2 :: "nat world" where
  "world2 = \<lparr>all_nodes = [''py@host'' \<mapsto> \<lparr>processes = []\<rparr>],
             objs = [proc0\<lparr>greenlet := Scheduled\<rparr>], events = []\<rparr>"

declare handle_inbox.simps [simp del]
declare run.simps [simp del]

section \<open>Properties\<close>

subsection \<open>The transitions of the greenlet, case by case\<close>

lemma step_AtGet_empty:
  "greenlet p = AtGet \<Longrightarrow> inbox p = [] \<Longrightarrow> step self p = None"
  by (simp add: step_def handle_inbox_iter_def)

lemma step_AtGet_sentinel:
  "greenlet p = AtGet \<Longrightarrow> inbox p = PyNone # q \<Longrightarrow>
   step self p = Some (p\<lparr>inbox := q, greenlet := AtSleep\<rparr>, [PrintHandleInbox self PyNone])"
  by (simp add: step_def handle_inbox_iter_def)

lemma step_AtGet_message:
  "greenlet p = AtGet \<Longrightarrow> inbox p = m # q \<Longrightarrow> m \<noteq> PyNone \<Longrightarrow>
   step self p = Some (p\<lparr>inbox := q\<rparr>, [PrintHandleInbox self m, PrintHandling (pid_of p) m])"
  by (simp add: step_def handle_inbox_iter_def handle_one_inbox_message_def)

lemma step_AtSleep:
  "greenlet p = AtSleep \<Longrightarrow> step self p = Some (p\<lparr>greenlet := AtWhile\<rparr>, [Sleep0 self])"
  by (simp add: step_def)

lemma step_AtWhile:
  "greenlet p = AtWhile \<Longrightarrow>
   step self p = Some (p\<lparr>greenlet := (if is_exiting p then Finished else AtGet)\<rparr>, [])"
  by (simp add: step_def)

lemma step_Scheduled:
  "greenlet p = Scheduled \<Longrightarrow> step self p = Some (p\<lparr>greenlet := AtWhile\<rparr>, [])"
  by (simp add: step_def)

lemma step_Finished:
  "greenlet p = Finished \<Longrightarrow> step self p = None"
  by (simp add: step_def)

lemma run_Finished: "greenlet p = Finished \<Longrightarrow> run self p = (p, [])"
  by (simp add: run.simps step_Finished)

lemma run_drain:
  "greenlet p = AtGet \<Longrightarrow> inbox p = ms \<Longrightarrow> PyNone \<notin> set ms \<Longrightarrow>
   run self p = (p\<lparr>inbox := []\<rparr>, dispatched self (pid_of p) ms)"
proof (induction ms arbitrary: p)
  case Nil
  then show ?case
    by (simp add: run.simps [of self p] step_AtGet_empty dispatched_def)
next
  case (Cons m ms)
  from Cons.prems have m: "m \<noteq> PyNone" and ms: "PyNone \<notin> set ms" by auto
  have st: "step self p = Some (p\<lparr>inbox := ms\<rparr>, [PrintHandleInbox self m, PrintHandling (pid_of p) m])"
    using Cons.prems m by (simp add: step_AtGet_message)
  have "run self (p\<lparr>inbox := ms\<rparr>) = (p\<lparr>inbox := ms\<rparr>\<lparr>inbox := []\<rparr>, dispatched self (pid_of (p\<lparr>inbox := ms\<rparr>)) ms)"
    using Cons.prems ms by (intro Cons.IH) simp_all
  then show ?case
    by (simp add: run.simps [of self p] st dispatched_def)
qed

lemma handled_append: "handled (xs @ ys) = handled xs @ handled ys"
  by (induction xs rule: handled.induct) simp_all

lemma handled_dispatched: "handled (dispatched self pid1 ms) = ms"
  by (induction ms) (simp_all add: dispatched_def)

lemma handle_inbox_empty: "inbox p = [] \<Longrightarrow> handle_inbox self p = (False, p, [])"
  by (simp add: handle_inbox.simps [of self p] handle_inbox_iter_def)

lemma handle_inbox_sentinel:
  "inbox p = PyNone # q \<Longrightarrow>
   handle_inbox self p = (True, p\<lparr>inbox := q\<rparr>, [PrintHandleInbox self PyNone])"
  by (simp add: handle_inbox.simps [of self p] handle_inbox_iter_def)

lemma handle_inbox_message:
  "inbox p = m # q \<Longrightarrow> m \<noteq> PyNone \<Longrightarrow>
   handle_inbox self p =
     (case handle_inbox self (p\<lparr>inbox := q\<rparr>) of
        (b, p2, out2) \<Rightarrow> (b, p2, [PrintHandleInbox self m, PrintHandling (pid_of p) m] @ out2))"
  by (simp add: handle_inbox.simps [of self p] handle_inbox_iter_def handle_one_inbox_message_def)

lemma handle_inbox_until_sentinel:
  "inbox p = ms @ PyNone # rest \<Longrightarrow> PyNone \<notin> set ms \<Longrightarrow>
   handle_inbox self p =
     (True, p\<lparr>inbox := rest\<rparr>, dispatched self (pid_of p) ms @ [PrintHandleInbox self PyNone])"
proof (induction ms arbitrary: p)
  case Nil
  then show ?case by (simp add: handle_inbox_sentinel dispatched_def)
next
  case (Cons m ms)
  from Cons.prems have m: "m \<noteq> PyNone" and ms: "PyNone \<notin> set ms"
    and ib: "inbox p = m # (ms @ PyNone # rest)" by auto
  have "handle_inbox self (p\<lparr>inbox := ms @ PyNone # rest\<rparr>) =
        (True, p\<lparr>inbox := ms @ PyNone # rest\<rparr>\<lparr>inbox := rest\<rparr>,
         dispatched self (pid_of (p\<lparr>inbox := ms @ PyNone # rest\<rparr>)) ms @ [PrintHandleInbox self PyNone])"
    using ms by (intro Cons.IH) simp_all
  then show ?case
    by (simp add: handle_inbox_message [OF ib m] dispatched_def)
qed

lemma handle_inbox_no_sentinel:
  "inbox p = ms \<Longrightarrow> PyNone \<notin> set ms \<Longrightarrow>
   handle_inbox self p = (False, p\<lparr>inbox := []\<rparr>, dispatched self (pid_of p) ms)"
proof (induction ms arbitrary: p)
  case Nil
  then show ?case by (simp add: handle_inbox_empty dispatched_def)
next
  case (Cons m ms)
  from Cons.prems have m: "m \<noteq> PyNone" and ms: "PyNone \<notin> set ms"
    and ib: "inbox p = m # ms" by auto
  have "handle_inbox self (p\<lparr>inbox := ms\<rparr>) =
        (False, p\<lparr>inbox := ms\<rparr>\<lparr>inbox := []\<rparr>, dispatched self (pid_of (p\<lparr>inbox := ms\<rparr>)) ms)"
    using ms by (intro Cons.IH) simp_all
  then show ?case
    by (simp add: handle_inbox_message [OF ib m] dispatched_def)
qed

lemma run_step: "step self p = Some (p1, out) \<Longrightarrow>
  run self p = (case run self p1 of (p2, out2) \<Rightarrow> (p2, out @ out2))"
  by (simp add: run.simps [of self p])

lemma run_AtSleep:
  "greenlet p = AtSleep \<Longrightarrow>
   run self p =
     (case run self (p\<lparr>greenlet := AtWhile\<rparr>) of (p2, out2) \<Rightarrow> (p2, Sleep0 self # out2))"
  by (simp add: run_step [OF step_AtSleep])

lemma run_AtWhile_exiting:
  "greenlet p = AtWhile \<Longrightarrow> is_exiting p \<Longrightarrow> run self p = (p\<lparr>greenlet := Finished\<rparr>, [])"
  by (simp add: run_step [OF step_AtWhile] run_Finished)

lemma run_AtWhile_running:
  "greenlet p = AtWhile \<Longrightarrow> \<not> is_exiting p \<Longrightarrow> run self p = run self (p\<lparr>greenlet := AtGet\<rparr>)"
  by (simp add: run_step [OF step_AtWhile])

lemma run_Scheduled:
  "greenlet p = Scheduled \<Longrightarrow> run self p = run self (p\<lparr>greenlet := AtWhile\<rparr>)"
  by (simp add: run_step [OF step_Scheduled])

lemma run_until_sentinel:
  "greenlet p = AtGet \<Longrightarrow> inbox p = ms @ PyNone # rest \<Longrightarrow> PyNone \<notin> set ms \<Longrightarrow>
   run self p =
     (case run self (p\<lparr>inbox := rest, greenlet := AtWhile\<rparr>) of
        (p2, out2) \<Rightarrow>
          (p2, dispatched self (pid_of p) ms @ [PrintHandleInbox self PyNone, Sleep0 self] @ out2))"
proof (induction ms arbitrary: p)
  case Nil
  then have st: "step self p =
      Some (p\<lparr>inbox := rest, greenlet := AtSleep\<rparr>, [PrintHandleInbox self PyNone])"
    by (simp add: step_AtGet_sentinel)
  show ?case
    by (simp add: run_step [OF st] run_AtSleep dispatched_def split: prod.splits)
next
  case (Cons m ms)
  from Cons.prems have m: "m \<noteq> PyNone" and ms: "PyNone \<notin> set ms"
    and ib: "inbox p = m # (ms @ PyNone # rest)" by auto
  have st: "step self p =
      Some (p\<lparr>inbox := ms @ PyNone # rest\<rparr>, [PrintHandleInbox self m, PrintHandling (pid_of p) m])"
    using Cons.prems(1) ib m by (rule step_AtGet_message)
  have ih: "run self (p\<lparr>inbox := ms @ PyNone # rest\<rparr>) =
     (case run self (p\<lparr>inbox := ms @ PyNone # rest\<rparr>\<lparr>inbox := rest, greenlet := AtWhile\<rparr>) of
        (p2, out2) \<Rightarrow>
          (p2, dispatched self (pid_of (p\<lparr>inbox := ms @ PyNone # rest\<rparr>)) ms
               @ [PrintHandleInbox self PyNone, Sleep0 self] @ out2))"
    using Cons.prems(1) ms by (intro Cons.IH) simp_all
  show ?case
    by (simp add: run_step [OF st] ih dispatched_def split: prod.splits)
qed

lemma foldl_mailbox_put: "foldl (\<lambda>q m. mailbox_put m q) q ms = q @ ms"
  by (induction ms arbitrary: q) (simp_all add: mailbox_put_def)

subsection \<open>The node, construction and exit\<close>

lemma where_is_on_exit_process: "where_is (on_exit_process pid1 reason n) pid1 = None"
  by (simp add: where_is_def on_exit_process_def AList.delete_conv)

lemma on_exit_process_twice:
  "on_exit_process pid1 reason' (on_exit_process pid1 reason n) = on_exit_process pid1 reason n"
  by (simp add: on_exit_process_def AList.delete_idem)

lemma where_is_register_new_process:
  "where_is (snd (register_new_process proc n)) (fst (register_new_process proc n)) = Some proc"
  by (simp add: where_is_def register_new_process_def Let_def AList.update_conv')

lemma init_world0: "init ''py@host'' world0 = Inr (0, world1)"
  by (simp add: init_def world0_def world1_def proc0_def Let_def register_new_process_def
      fresh_pid_def Mailbox_def)

lemma exit_world1: "exit (objs world1 ! 0) reason world1 = Inr world2"
  by (simp add: exit_def world1_def world2_def proc0_def on_exit_process_def)

lemma exit_objs_events:
  "exit p reason w = Inr w' \<Longrightarrow> objs w' = objs w \<and> events w' = events w"
  by (auto simp: exit_def split: option.splits)

lemma init_objs_events:
  "init nn w = Inr (self, w') \<Longrightarrow> (\<exists>p. objs w' = objs w @ [p]) \<and> events w' = events w"
  by (auto simp: init_def Let_def split: option.splits prod.splits)

lemma step_is_exiting: "step self p = Some (p1, out) \<Longrightarrow> is_exiting p1 = is_exiting p"
  by (cases "inbox p")
     (auto simp: step_def handle_inbox_iter_def Let_def
           split: run_state.splits if_splits)

lemma step_no_sentinel_handled:
  "step self p = Some (p1, out) \<Longrightarrow> PrintHandling pid1 PyNone \<notin> set out"
  by (cases "inbox p")
     (auto simp: step_def handle_inbox_iter_def handle_one_inbox_message_def Let_def
           split: run_state.splits if_splits)

lemma apply_op_is_exiting:
  assumes "self < length (objs w)"
  shows "self < length (objs (apply_op x w))
       \<and> is_exiting (objs (apply_op x w) ! self) = is_exiting (objs w ! self)"
proof (cases x)
  case (Construct nn)
  show ?thesis
  proof (cases "init nn w")
    case (Inl e)
    with Construct assms show ?thesis by simp
  next
    case (Inr r)
    obtain new w1 where r: "r = (new, w1)" by (cases r)
    from init_objs_events [of nn w new w1] Inr r obtain p where "objs w1 = objs w @ [p]"
      by auto
    with Construct Inr r assms show ?thesis by (simp add: nth_append)
  qed
next
  case (Step r)
  with assms show ?thesis
    by (auto simp: step_world_def nth_list_update step_is_exiting split: option.splits)
next
  case (Put r m)
  with assms show ?thesis
    by (auto simp: put_world_def nth_list_update)
next
  case (Exit r reason)
  with assms show ?thesis
    by (auto simp: exit_objs_events split: sum.splits)
qed

lemma apply_op_no_sentinel_handled:
  assumes "PrintHandling pid1 PyNone \<notin> set (events w)"
  shows "PrintHandling pid1 PyNone \<notin> set (events (apply_op x w))"
proof (cases x)
  case (Construct nn)
  with assms show ?thesis
    by (auto simp: init_objs_events split: sum.splits)
next
  case (Step r)
  with assms show ?thesis
    by (auto simp: step_world_def step_no_sentinel_handled split: option.splits)
next
  case (Put r m)
  with assms show ?thesis by (simp add: put_world_def)
next
  case (Exit r reason)
  with assms show ?thesis
    by (auto simp: exit_objs_events split: sum.splits)
qed

section \<open>The claims\<close>

subsection \<open>The run loop and the sentinel\<close>

text \<open>
  C1 as stated does not hold: the sentinel ends the drain pass only. With \<open>is_exiting_\<close> false, a process at
  \<open>get\<close> whose mailbox holds \<open>None\<close> and then the message \<open>5\<close> dequeues the
  sentinel, sleeps, starts another pass, dispatches \<open>5\<close> to the handler and then waits
  at \<open>get\<close> again: \<open>_run\<close> has not returned.
\<close>

theorem sentinel_does_not_end_run:
  "step 0 (proc0\<lparr>inbox := [PyNone, PyVal 5]\<rparr>) =
     Some (proc0\<lparr>inbox := [PyVal 5], greenlet := AtSleep\<rparr>, [PrintHandleInbox 0 PyNone])
   \<and> run 0 (proc0\<lparr>inbox := [PyVal 5], greenlet := AtSleep\<rparr>) =
       (proc0, [Sleep0 0, PrintHandleInbox 0 (PyVal 5), PrintHandling 1 (PyVal 5)])
   \<and> greenlet proc0 \<noteq> Finished"
  by (simp add: run.simps step_def handle_inbox_iter_def handle_one_inbox_message_def proc0_def)

text \<open>
  C1, amended. When the sentinel is dequeued, the drain pass ends without a dispatch and
  the loop sleeps once and tests \<open>is_exiting_\<close> again. If the flag is true, \<open>_run\<close>
  returns there: nothing more is dequeued or dispatched. If it is false, the loop goes
  on with another drain pass over the rest of the mailbox.
\<close>

theorem run_after_sentinel:
  assumes "greenlet p = AtGet" and "inbox p = PyNone # rest"
  shows "run self p =
     (if is_exiting p
      then (p\<lparr>inbox := rest, greenlet := Finished\<rparr>, [PrintHandleInbox self PyNone, Sleep0 self])
      else (case run self (p\<lparr>inbox := rest, greenlet := AtGet\<rparr>) of
              (p2, out2) \<Rightarrow> (p2, [PrintHandleInbox self PyNone, Sleep0 self] @ out2)))"
proof -
  have "run self p =
     (case run self (p\<lparr>inbox := rest, greenlet := AtWhile\<rparr>) of
        (p2, out2) \<Rightarrow> (p2, [PrintHandleInbox self PyNone, Sleep0 self] @ out2))"
    using run_until_sentinel [of p "[]" rest self] assms by (simp add: dispatched_def)
  moreover have "is_exiting p \<Longrightarrow>
      run self (p\<lparr>inbox := rest, greenlet := AtWhile\<rparr>) = (p\<lparr>inbox := rest, greenlet := Finished\<rparr>, [])"
    by (simp add: run_AtWhile_exiting)
  moreover have "\<not> is_exiting p \<Longrightarrow>
      run self (p\<lparr>inbox := rest, greenlet := AtWhile\<rparr>) =
      run self (p\<lparr>inbox := rest, greenlet := AtGet\<rparr>)"
    by (simp add: run_AtWhile_running)
  ultimately show ?thesis by simp
qed

theorem run_after_sentinel_witness:
  "greenlet (proc0\<lparr>inbox := [PyNone, PyVal 5], is_exiting := True\<rparr>) = AtGet
   \<and> inbox (proc0\<lparr>inbox := [PyNone, PyVal 5], is_exiting := True\<rparr>) = [PyNone, PyVal 5]
   \<and> run 0 (proc0\<lparr>inbox := [PyNone, PyVal 5], is_exiting := True\<rparr>) =
       (proc0\<lparr>inbox := [PyVal 5], is_exiting := True, greenlet := Finished\<rparr>,
        [PrintHandleInbox 0 PyNone, Sleep0 0])"
  using run_after_sentinel [of "proc0\<lparr>inbox := [PyNone, PyVal 5], is_exiting := True\<rparr>" "[PyVal 5]" 0]
  by (simp add: proc0_def)

subsection \<open>The drain pass\<close>

text \<open>
  C3 as stated does not hold: an empty mailbox does not end the drain pass. A process at \<open>get\<close> whose mailbox holds
  only the message \<open>5\<close> dispatches it and is then blocked inside \<open>handle_inbox\<close>: the
  call has not returned, nothing was yielded by \<open>gevent.sleep(0)\<close>, and the greenlet
  cannot move. When the message \<open>6\<close> arrives, the same pass dispatches it.
\<close>

theorem drain_blocks_on_empty:
  "handle_inbox 0 (proc0\<lparr>inbox := [PyVal 5]\<rparr>) =
     (False, proc0, [PrintHandleInbox 0 (PyVal 5), PrintHandling 1 (PyVal 5)])
   \<and> run 0 (proc0\<lparr>inbox := [PyVal 5]\<rparr>) =
       (proc0, [PrintHandleInbox 0 (PyVal 5), PrintHandling 1 (PyVal 5)])
   \<and> greenlet proc0 = AtGet \<and> step 0 proc0 = None
   \<and> step 0 (proc0\<lparr>inbox := mailbox_put (PyVal 6) (inbox proc0)\<rparr>) =
       Some (proc0, [PrintHandleInbox 0 (PyVal 6), PrintHandling 1 (PyVal 6)])"
  by (simp add: run.simps handle_inbox.simps step_def handle_inbox_iter_def
      handle_one_inbox_message_def mailbox_put_def proc0_def)

text \<open>
  C3, amended. A drain pass dequeues the messages in order and dispatches each one that
  is not the sentinel to the handler. It stops only when the sentinel is dequeued, and the
  loop then yields with \<open>gevent.sleep(0)\<close> before anything else. Where the mailbox runs
  empty first, every message was dispatched and the pass is blocked in \<open>get\<close>, neither
  returned nor yielded.
\<close>

theorem drain_pass:
  assumes "PyNone \<notin> set ms" and "greenlet p = AtGet"
  shows "handle_inbox self (p\<lparr>inbox := ms @ PyNone # rest\<rparr>) =
           (True, p\<lparr>inbox := rest\<rparr>,
            dispatched self (pid_of p) ms @ [PrintHandleInbox self PyNone])
       \<and> run self (p\<lparr>inbox := ms @ PyNone # rest\<rparr>) =
           (case run self (p\<lparr>inbox := rest, greenlet := AtWhile\<rparr>) of
              (p2, out2) \<Rightarrow>
                (p2, dispatched self (pid_of p) ms
                     @ [PrintHandleInbox self PyNone, Sleep0 self] @ out2))
       \<and> handle_inbox self (p\<lparr>inbox := ms\<rparr>) =
           (False, p\<lparr>inbox := []\<rparr>, dispatched self (pid_of p) ms)
       \<and> run self (p\<lparr>inbox := ms\<rparr>) = (p\<lparr>inbox := []\<rparr>, dispatched self (pid_of p) ms)
       \<and> step self (p\<lparr>inbox := []\<rparr>) = None"
proof -
  have "handle_inbox self (p\<lparr>inbox := ms @ PyNone # rest\<rparr>) =
           (True, p\<lparr>inbox := rest\<rparr>,
            dispatched self (pid_of p) ms @ [PrintHandleInbox self PyNone])"
    using assms(1) handle_inbox_until_sentinel [of "p\<lparr>inbox := ms @ PyNone # rest\<rparr>" ms rest self]
    by simp
  moreover have "run self (p\<lparr>inbox := ms @ PyNone # rest\<rparr>) =
           (case run self (p\<lparr>inbox := rest, greenlet := AtWhile\<rparr>) of
              (p2, out2) \<Rightarrow>
                (p2, dispatched self (pid_of p) ms
                     @ [PrintHandleInbox self PyNone, Sleep0 self] @ out2))"
    using assms run_until_sentinel [of "p\<lparr>inbox := ms @ PyNone # rest\<rparr>" ms rest self]
    by simp
  moreover have "handle_inbox self (p\<lparr>inbox := ms\<rparr>) =
           (False, p\<lparr>inbox := []\<rparr>, dispatched self (pid_of p) ms)"
    using assms(1) handle_inbox_no_sentinel [of "p\<lparr>inbox := ms\<rparr>" ms self] by simp
  moreover have "run self (p\<lparr>inbox := ms\<rparr>) = (p\<lparr>inbox := []\<rparr>, dispatched self (pid_of p) ms)"
    using assms run_drain [of "p\<lparr>inbox := ms\<rparr>" ms self] by simp
  moreover have "step self (p\<lparr>inbox := []\<rparr>) = None"
    using assms(2) by (simp add: step_AtGet_empty)
  ultimately show ?thesis by simp
qed

theorem drain_pass_witness:
  "PyNone \<notin> set [PyVal 5, PyVal (6::nat)] \<and> greenlet proc0 = AtGet
   \<and> handle_inbox 0 (proc0\<lparr>inbox := [PyVal 5, PyVal 6, PyNone, PyVal 7]\<rparr>) =
       (True, proc0\<lparr>inbox := [PyVal 7]\<rparr>,
        [PrintHandleInbox 0 (PyVal 5), PrintHandling 1 (PyVal 5),
         PrintHandleInbox 0 (PyVal 6), PrintHandling 1 (PyVal 6), PrintHandleInbox 0 PyNone])
   \<and> handle_inbox 0 (proc0\<lparr>inbox := [PyVal 5, PyVal 6]\<rparr>) =
       (False, proc0,
        [PrintHandleInbox 0 (PyVal 5), PrintHandling 1 (PyVal 5),
         PrintHandleInbox 0 (PyVal 6), PrintHandling 1 (PyVal 6)])"
  using drain_pass [of "[PyVal 5, PyVal 6]" proc0 0 "[PyVal 7]"]
  by (simp add: proc0_def dispatched_def)

subsection \<open>The order of dispatch\<close>

text \<open>
  C5. Messages \<open>ms\<close>, none of them the sentinel, are put one after the other into the
  empty mailbox of a process that is scheduled but has not begun to run and is not
  exiting. When the process then runs, the handler is invoked on exactly \<open>ms\<close>, in
  that order.
\<close>

theorem handler_order:
  assumes "PyNone \<notin> set ms" and "greenlet p = Scheduled" and "\<not> is_exiting p"
    and "inbox p = Mailbox"
  shows "handled (snd (run self (p\<lparr>inbox := foldl (\<lambda>q m. mailbox_put m q) (inbox p) ms\<rparr>))) = ms"
proof -
  let ?p = "p\<lparr>inbox := ms\<rparr>"
  have "run self ?p = run self (?p\<lparr>greenlet := AtGet\<rparr>)"
    using assms by (simp add: run_Scheduled run_AtWhile_running)
  also have "\<dots> = (?p\<lparr>greenlet := AtGet, inbox := []\<rparr>, dispatched self (pid_of p) ms)"
    using assms(1) run_drain [of "?p\<lparr>greenlet := AtGet\<rparr>" ms self] by simp
  finally show ?thesis
    using assms(4) by (simp add: foldl_mailbox_put Mailbox_def handled_dispatched)
qed

theorem handler_order_witness:
  "PyNone \<notin> set [PyVal 1, PyVal 2, PyVal (3::nat)]
   \<and> greenlet (proc0\<lparr>greenlet := Scheduled\<rparr>) = Scheduled
   \<and> \<not> is_exiting (proc0\<lparr>greenlet := Scheduled\<rparr>)
   \<and> inbox (proc0\<lparr>greenlet := Scheduled\<rparr>) = Mailbox
   \<and> handled (snd (run 0 (proc0\<lparr>greenlet := Scheduled,
        inbox := mailbox_put (PyVal 3) (mailbox_put (PyVal 2) (mailbox_put (PyVal 1) []))\<rparr>))) =
       [PyVal 1, PyVal 2, PyVal 3]"
  using handler_order [of "[PyVal 1, PyVal 2, PyVal 3]" "proc0\<lparr>greenlet := Scheduled\<rparr>" 0]
  by (simp add: proc0_def Mailbox_def)

subsection \<open>The sentinel never reaches the handler\<close>

text \<open>
  C9. Whatever happens to a world of processes, no invocation of the handler on \<open>None\<close>
  is ever added to what was observed. A process at \<open>get\<close> that dequeues \<open>None\<close> prints
  it and leaves the drain pass, with no call of the handler.
\<close>

theorem handler_never_gets_sentinel:
  "(PrintHandling k PyNone \<notin> set (events w) \<longrightarrow>
      PrintHandling k PyNone \<notin> set (events (apply_ops xs w)))
   \<and> step self (p\<lparr>greenlet := AtGet, inbox := PyNone # rest\<rparr>) =
       Some (p\<lparr>greenlet := AtSleep, inbox := rest\<rparr>, [PrintHandleInbox self PyNone])
   \<and> handle_inbox self (p\<lparr>inbox := PyNone # rest\<rparr>) =
       (True, p\<lparr>inbox := rest\<rparr>, [PrintHandleInbox self PyNone])"
proof -
  have "PrintHandling k PyNone \<notin> set (events w) \<Longrightarrow>
        PrintHandling k PyNone \<notin> set (events (apply_ops xs w))"
  proof (induction xs arbitrary: w)
    case Nil
    then show ?case by simp
  next
    case (Cons x xs)
    then show ?case by (simp add: apply_op_no_sentinel_handled)
  qed
  then show ?thesis
    by (simp add: step_AtGet_sentinel handle_inbox_sentinel)
qed

theorem handler_never_gets_sentinel_witness:
  "PrintHandling 1 PyNone \<notin> set (events world1)
   \<and> PrintHandling 1 PyNone \<notin> set (events (apply_ops
        [Put 0 (PyVal 5), Put 0 PyNone, Put 0 (PyVal 6),
         Step 0, Step 0, Step 0, Step 0, Step 0, Step 0, Step 0, Step 0] world1))"
proof -
  have "PrintHandling 1 PyNone \<notin> set (events world1)"
    by (simp add: world1_def)
  with handler_never_gets_sentinel [where k = 1 and w = world1 and self = 0
        and p = proc0 and rest = "[]" and xs =
        "[Put 0 (PyVal 5), Put 0 PyNone, Put 0 (PyVal 6),
          Step 0, Step 0, Step 0, Step 0, Step 0, Step 0, Step 0, Step 0]"]
  show ?thesis by blast
qed

subsection \<open>Construction\<close>

text \<open>
  C4. When the constructor returns, the new process is in the store, its \<open>pid_\<close> is the
  pid that \<open>register_new_process\<close> issued for it, and the node's process dictionary
  maps that pid to the new process: the process is registered when the constructor
  returns.
\<close>

theorem init_registers:
  assumes "init nn w = Inr (self, w')"
  shows "\<exists>n. all_nodes w nn = Some n
           \<and> self = length (objs w)
           \<and> objs w' = objs w @ [objs w' ! self]
           \<and> node_name (objs w' ! self) = nn
           \<and> pid_of (objs w' ! self) = fst (register_new_process self n)
           \<and> all_nodes w' nn = Some (snd (register_new_process self n))
           \<and> (\<exists>n'. all_nodes w' nn = Some n' \<and> where_is n' (pid_of (objs w' ! self)) = Some self)"
proof -
  from assms obtain n where n: "all_nodes w nn = Some n"
    by (auto simp: init_def split: option.splits)
  let ?r = "register_new_process (length (objs w)) n"
  from assms n have self: "self = length (objs w)"
    and w': "w' = w\<lparr>all_nodes := (all_nodes w)(nn \<mapsto> snd ?r),
                     objs := objs w @ [\<lparr>node_name = nn, inbox = Mailbox, pid_of = fst ?r,
                       is_exiting = False, monitors = {}, monitor_targets = {},
                       greenlet = Scheduled\<rparr>]\<rparr>"
    by (auto simp: init_def Let_def split: prod.splits)
  show ?thesis
    using n where_is_register_new_process [of "length (objs w)" n]
    by (simp add: self w')
qed

theorem init_registers_witness:
  "init ''py@host'' world0 = Inr (0, world1)
   \<and> pid_of (objs world1 ! 0) = 1
   \<and> all_nodes world1 ''py@host'' = Some \<lparr>processes = [(1, 0)]\<rparr>
   \<and> where_is \<lparr>processes = [(1, 0)]\<rparr> 1 = Some 0"
  using init_registers [OF init_world0]
  by (simp add: init_world0 world1_def proc0_def where_is_def)

subsection \<open>\<open>exit\<close>\<close>

text \<open>
  C2 fails on the flag. A process constructed on the node \<open>py@host\<close> calls
  \<open>exit\<close>: the node's mapping is removed, and \<open>is_exiting_\<close> is still false.
\<close>

theorem exit_does_not_mark_exiting:
  "init ''py@host'' world0 = Inr (0, world1)
   \<and> exit (objs world1 ! 0) (PyVal 0) world1 = Inr world2
   \<and> is_exiting (objs world2 ! 0) = False
   \<and> all_nodes world2 ''py@host'' = Some \<lparr>processes = []\<rparr>"
  by (simp add: init_world0 exit_world1) (simp add: world2_def proc0_def)

text \<open>
  C10. A call of \<open>exit\<close> that returns leaves the store of process objects as it was, so
  every field of every process, this one included, is unchanged; it prints and yields
  nothing; and \<open>Node.all_nodes\<close> differs only at the process's node, which is the
  result of the one call of \<open>on_exit_process\<close> with the process's pid and the reason.
\<close>

theorem exit_frame:
  assumes "exit p reason w = Inr w'"
  shows "objs w' = objs w \<and> events w' = events w
       \<and> (\<exists>n. all_nodes w (node_name p) = Some n
              \<and> all_nodes w' = (all_nodes w)(node_name p \<mapsto> on_exit_process (pid_of p) reason n))"
  using assms by (auto simp: exit_def split: option.splits)

theorem exit_frame_witness:
  "exit (objs world1 ! 0) (PyVal 0) world1 = Inr world2
   \<and> objs world2 = objs world1 \<and> events world2 = events world1"
  using exit_frame [OF exit_world1 [of "PyVal 0"]]
  by (simp add: exit_world1)

text \<open>
  C7. After \<open>exit\<close> has returned, the node that \<open>exit\<close> resolved has no mapping for
  the process's pid.
\<close>

theorem exit_unregisters:
  assumes "exit p reason w = Inr w'"
  shows "\<exists>n'. all_nodes w' (node_name p) = Some n' \<and> where_is n' (pid_of p) = None"
  using assms by (auto simp: exit_def where_is_on_exit_process split: option.splits)

theorem exit_unregisters_witness:
  "exit (objs world1 ! 0) (PyVal 0) world1 = Inr world2
   \<and> all_nodes world2 ''py@host'' = Some \<lparr>processes = []\<rparr>
   \<and> where_is \<lparr>processes = []\<rparr> 1 = None"
  using exit_unregisters [OF exit_world1 [of "PyVal 0"]]
  by (simp add: exit_world1 world2_def where_is_def)

text \<open>
  C6. A second call of \<open>exit\<close>, with any reason, after a first call that returned: it
  returns too, and the world is exactly the world after the first call.
\<close>

theorem exit_twice:
  assumes "exit p reason w = Inr w1"
  shows "exit p reason' w1 = Inr w1"
  using assms by (auto simp: exit_def on_exit_process_twice split: option.splits)

theorem exit_twice_witness:
  "exit (objs world1 ! 0) (PyVal 0) world1 = Inr world2
   \<and> exit (objs world1 ! 0) (PyVal 1) world2 = Inr world2"
  using exit_twice [OF exit_world1 [of "PyVal 0"], of "PyVal 1"]
  by (simp add: exit_world1)

subsection \<open>The exiting flag\<close>

text \<open>
  C8. Once \<open>is_exiting_\<close> of a process is true, it stays true through every sequence of
  constructions, transitions of any greenlet (dispatches included), puts and calls of
  \<open>exit\<close>.
\<close>

theorem is_exiting_monotonic:
  assumes "self < length (objs w)" and "is_exiting (objs w ! self)"
  shows "self < length (objs (apply_ops xs w)) \<and> is_exiting (objs (apply_ops xs w) ! self)"
  using assms
proof (induction xs arbitrary: w)
  case Nil
  then show ?case by simp
next
  case (Cons x xs)
  from apply_op_is_exiting [OF Cons.prems(1), of x] Cons.prems(2)
  have "self < length (objs (apply_op x w))" and "is_exiting (objs (apply_op x w) ! self)"
    by simp_all
  then show ?case by (simp add: Cons.IH)
qed

theorem is_exiting_monotonic_witness:
  "0 < length (objs (world1\<lparr>objs := [proc0\<lparr>is_exiting := True\<rparr>]\<rparr>))
   \<and> is_exiting (objs (world1\<lparr>objs := [proc0\<lparr>is_exiting := True\<rparr>]\<rparr>) ! 0)
   \<and> is_exiting (objs (apply_ops
        [Put 0 (PyVal 5), Step 0, Exit 0 PyNone, Construct ''py@host'', Step 0, Step 1]
        (world1\<lparr>objs := [proc0\<lparr>is_exiting := True\<rparr>]\<rparr>)) ! 0)"
proof -
  have "0 < length (objs (world1\<lparr>objs := [proc0\<lparr>is_exiting := True\<rparr>]\<rparr>))"
    and "is_exiting (objs (world1\<lparr>objs := [proc0\<lparr>is_exiting := True\<rparr>]\<rparr>) ! 0)"
    by simp_all
  with is_exiting_monotonic [of 0 "world1\<lparr>objs := [proc0\<lparr>is_exiting := True\<rparr>]\<rparr>"
        "[Put 0 (PyVal 5), Step 0, Exit 0 PyNone, Construct ''py@host'', Step 0, Step 1]"]
  show ?thesis by blast
qed

end
